theory Spec2Isabelle
  imports Complex_Main "HOL-Library.Multiset" "HOL-Library.AList"
begin

section \<open>TTLDictionary: a dictionary whose entries expire\<close>

text \<open>
  The development embeds \<^verbatim>\<open>src/ttl_dictionary.py\<close>. The class keeps two
  attributes that matter for its behaviour: \<^verbatim>\<open>data\<close>, a Python dict, and
  \<^verbatim>\<open>expiry_times\<close>, a Python list handled with \<^verbatim>\<open>heapq\<close>. Every
  method body runs under one reentrant lock, so the methods are modelled as atomic
  steps on a state record; the value that \<^verbatim>\<open>time.time()\<close> returns during a
  call is an argument of the step. The daemon thread is the step \<open>Sweep\<close> taken at
  any moment between two calls. Time stamps and durations are exact real numbers
  (the rounding of float addition is not modelled), and \<^verbatim>\<open>float("inf")\<close> is
  the constructor \<open>Never\<close>.
\<close>

subsection \<open>Python values\<close>

text \<open>
  What a caller can pass as \<^verbatim>\<open>value_and_ttl\<close>: \<^verbatim>\<open>None\<close>, a number, a
  tuple, or any other object (opaque, of type \<open>'v\<close>).
\<close>

datatype 'v pyobj = PNone | Num real | Obj 'v | Tuple "'v pyobj list"

datatype error = KeyError | TypeError | ValueError | IndexError

fun is_tuple :: "'v pyobj \<Rightarrow> bool" where
  "is_tuple (Tuple xs) = True"
| "is_tuple x = False"

subsection \<open>Deadlines and heap items\<close>

datatype deadline = At real | Never

text \<open>\<^verbatim>\<open>expiry <= now\<close> for a finite \<open>now\<close>: infinity is never reached.\<close>

fun deadline_le :: "deadline \<Rightarrow> real \<Rightarrow> bool" where
  "deadline_le (At t) now = (t \<le> now)"
| "deadline_le Never now = False"

fun deadline_lt :: "deadline \<Rightarrow> deadline \<Rightarrow> bool" where
  "deadline_lt (At a) (At b) = (a < b)"
| "deadline_lt (At a) Never = True"
| "deadline_lt Never d = False"

text \<open>
  Python compares the tuples \<^verbatim>\<open>(expiry_time, key)\<close> lexicographically: the
  first components decide unless they are equal, then the keys do. Keys are taken
  from a linearly ordered type, so that the comparison of two keys never raises.
\<close>

fun item_lt :: "deadline \<times> 'k::linorder \<Rightarrow> deadline \<times> 'k \<Rightarrow> bool" where
  "item_lt (d1, k1) (d2, k2) = (if d1 \<noteq> d2 then deadline_lt d1 d2 else k1 < k2)"

subsection \<open>The heapq functions used by the class\<close>

text \<open>
  \<^verbatim>\<open>heapq._siftdown(heap, startpos, pos)\<close>: the loop carries \<^verbatim>\<open>newitem\<close> and
  moves parents down until \<^verbatim>\<open>newitem\<close> fits.
\<close>

function siftdown_loop ::
  "(deadline \<times> 'k::linorder) list \<Rightarrow> nat \<Rightarrow> nat \<Rightarrow> deadline \<times> 'k \<Rightarrow> (deadline \<times> 'k) list" where
  "siftdown_loop heap startpos pos newitem =
     (if pos > startpos then
        (let parentpos = (pos - 1) div 2;
             parent = heap ! parentpos
         in if item_lt newitem parent
            then siftdown_loop (heap[pos := parent]) startpos parentpos newitem
            else heap[pos := newitem])
      else heap[pos := newitem])"
  by pat_completeness auto
termination
  by (relation "measure (\<lambda>(heap, startpos, pos, newitem). pos)") auto

declare siftdown_loop.simps [simp del]

definition siftdown :: "(deadline \<times> 'k::linorder) list \<Rightarrow> nat \<Rightarrow> nat \<Rightarrow> (deadline \<times> 'k) list" where
  "siftdown heap startpos pos = siftdown_loop heap startpos pos (heap ! pos)"

text \<open>
  \<^verbatim>\<open>heapq._siftup(heap, pos)\<close>: the loop bubbles the smaller child up until a
  leaf is reached (\<^verbatim>\<open>childpos = 2*pos + 1\<close> throughout); it returns the list
  and the position of the leaf that is now free.
\<close>

function siftup_loop ::
  "(deadline \<times> 'k::linorder) list \<Rightarrow> nat \<Rightarrow> nat \<Rightarrow> (deadline \<times> 'k) list \<times> nat" where
  "siftup_loop heap endpos pos =
     (let childpos = 2 * pos + 1 in
      if childpos < endpos then
        (let rightpos = childpos + 1;
             childpos' = (if rightpos < endpos \<and> \<not> item_lt (heap ! childpos) (heap ! rightpos)
                          then rightpos else childpos)
         in siftup_loop (heap[pos := heap ! childpos']) endpos childpos')
      else (heap, pos))"
  by pat_completeness auto
termination
  by (relation "measure (\<lambda>(heap, endpos, pos). endpos - pos)") (auto simp: Let_def)

declare siftup_loop.simps [simp del]

definition siftup :: "(deadline \<times> 'k::linorder) list \<Rightarrow> nat \<Rightarrow> (deadline \<times> 'k) list" where
  "siftup heap pos =
     (let endpos = length heap;
          startpos = pos;
          newitem = heap ! pos;
          (heap', pos') = siftup_loop heap endpos pos
      in siftdown (heap'[pos' := newitem]) startpos pos')"

definition heappush :: "(deadline \<times> 'k::linorder) list \<Rightarrow> deadline \<times> 'k \<Rightarrow> (deadline \<times> 'k) list" where
  "heappush heap item = siftdown (heap @ [item]) 0 (length heap)"

text \<open>\<^verbatim>\<open>heappop\<close> raises IndexError on the empty list: the value \<open>None\<close>.\<close>

definition heappop ::
  "(deadline \<times> 'k::linorder) list \<Rightarrow> ((deadline \<times> 'k) \<times> (deadline \<times> 'k) list) option" where
  "heappop heap =
     (if heap = [] then None
      else (let lastelt = last heap;
                heap' = butlast heap
            in if heap' \<noteq> [] then Some (heap' ! 0, siftup (heap'[0 := lastelt]) 0)
               else Some (lastelt, heap')))"

subsection \<open>The state of a TTLDictionary\<close>

text \<open>
  A Python dict keeps its keys in insertion order: an association list with distinct
  keys, where assigning to a present key replaces its value in place and assigning
  to an absent key appends (\<open>AList.update\<close>), and \<^verbatim>\<open>del\<close> drops the pair
  (\<open>AList.delete\<close>).
\<close>

record ('k, 'v) ttl_dictionary =
  data :: "('k \<times> 'v pyobj) list"
  expiry_times :: "(deadline \<times> 'k) list"
  daemon_sleep_time :: real

definition init :: "real \<Rightarrow> ('k, 'v) ttl_dictionary" where
  "init sleep_time = \<lparr>data = [], expiry_times = [], daemon_sleep_time = sleep_time\<rparr>"

subsection \<open>\<^verbatim>\<open>_clean_expired_unsafe\<close>\<close>

text \<open>
  One run of the loop body: pop the first heap item and delete its key from
  \<^verbatim>\<open>data\<close>; the KeyError of an absent key is swallowed. The loop condition
  guarantees a non-empty list, so the IndexError branch leaves the state alone.
\<close>

definition pop_expired :: "('k::linorder, 'v) ttl_dictionary \<Rightarrow> ('k, 'v) ttl_dictionary" where
  "pop_expired s =
     (case heappop (expiry_times s) of
        None \<Rightarrow> s
      | Some ((e, key), heap') \<Rightarrow>
          (if key \<in> set (map fst (data s))
           then s\<lparr>expiry_times := heap', data := AList.delete key (data s)\<rparr>
           else s\<lparr>expiry_times := heap'\<rparr>))"

definition expired_head :: "real \<Rightarrow> ('k, 'v) ttl_dictionary \<Rightarrow> bool" where
  "expired_head now s = (expiry_times s \<noteq> [] \<and> deadline_le (fst (expiry_times s ! 0)) now)"

text \<open>
  The loop of \<^verbatim>\<open>_clean_expired_unsafe\<close>: while the list is non-empty and the
  expiry time of its first item is at most \<open>now\<close>, pop. Every pop shortens the
  list, so the loop ends (the termination proof follows the facts about heappop).
\<close>

function clean_expired_unsafe ::
  "real \<Rightarrow> ('k::linorder, 'v) ttl_dictionary \<Rightarrow> ('k, 'v) ttl_dictionary" where
  "clean_expired_unsafe now s =
     (if expired_head now s then clean_expired_unsafe now (pop_expired s) else s)"
  by pat_completeness auto

subsection \<open>The methods\<close>

text \<open>
  Lines 70 to 78 of \<^verbatim>\<open>__setitem__\<close>: a tuple is unpacked into value and TTL
  (unpacking a tuple that has not two components raises ValueError, adding a TTL
  that is not a number to the time raises TypeError); anything else is the value
  itself and never expires.
\<close>

fun value_and_expiry :: "real \<Rightarrow> 'v pyobj \<Rightarrow> error + ('v pyobj \<times> deadline)" where
  "value_and_expiry now (Tuple [value, PNone]) = Inr (value, Never)"
| "value_and_expiry now (Tuple [value, Num ttl_seconds]) = Inr (value, At (now + ttl_seconds))"
| "value_and_expiry now (Tuple [value, ttl_seconds]) = Inl TypeError"
| "value_and_expiry now (Tuple xs) = Inl ValueError"
| "value_and_expiry now value = Inr (value, Never)"

text \<open>Lines 80 to 87: the part of \<^verbatim>\<open>__setitem__\<close> under the lock.\<close>

definition store ::
  "'k::linorder \<Rightarrow> 'v pyobj \<Rightarrow> deadline \<Rightarrow> ('k, 'v) ttl_dictionary \<Rightarrow> ('k, 'v) ttl_dictionary" where
  "store key value expiry_time s =
     (let heap = (if key \<in> set (map fst (data s))
                  then filter (\<lambda>(e, k). k \<noteq> key) (expiry_times s)
                  else expiry_times s)
      in s\<lparr>data := AList.update key value (data s),
           expiry_times := heappush heap (expiry_time, key)\<rparr>)"

definition setitem ::
  "real \<Rightarrow> ('k::linorder, 'v) ttl_dictionary \<Rightarrow> 'k \<Rightarrow> 'v pyobj
   \<Rightarrow> ('k, 'v) ttl_dictionary \<times> (error + unit)" where
  "setitem now s key value_and_ttl =
     (case value_and_expiry now value_and_ttl of
        Inl e \<Rightarrow> (s, Inl e)
      | Inr (value, expiry_time) \<Rightarrow> (store key value expiry_time s, Inr ()))"

definition getitem ::
  "real \<Rightarrow> ('k::linorder, 'v) ttl_dictionary \<Rightarrow> 'k
   \<Rightarrow> ('k, 'v) ttl_dictionary \<times> (error + 'v pyobj)" where
  "getitem now s key =
     (let s' = clean_expired_unsafe now s
      in (s', case map_of (data s') key of Some v \<Rightarrow> Inr v | None \<Rightarrow> Inl KeyError))"

definition delitem ::
  "('k, 'v) ttl_dictionary \<Rightarrow> 'k \<Rightarrow> ('k, 'v) ttl_dictionary \<times> (error + unit)" where
  "delitem s key =
     (if key \<in> set (map fst (data s))
      then (s\<lparr>data := AList.delete key (data s),
              expiry_times := filter (\<lambda>(e, k). k \<noteq> key) (expiry_times s)\<rparr>, Inr ())
      else (s, Inl KeyError))"

definition contains :: "('k, 'v) ttl_dictionary \<Rightarrow> 'k \<Rightarrow> ('k, 'v) ttl_dictionary \<times> bool" where
  "contains s key = (s, key \<in> set (map fst (data s)))"

definition len :: "('k, 'v) ttl_dictionary \<Rightarrow> ('k, 'v) ttl_dictionary \<times> nat" where
  "len s = (s, length (data s))"

definition keys :: "('k, 'v) ttl_dictionary \<Rightarrow> ('k, 'v) ttl_dictionary \<times> 'k list" where
  "keys s = (s, map fst (data s))"

definition values_list :: "('k, 'v) ttl_dictionary \<Rightarrow> ('k, 'v) ttl_dictionary \<times> 'v pyobj list" where
  "values_list s = (s, map snd (data s))"

definition items :: "('k, 'v) ttl_dictionary \<Rightarrow> ('k, 'v) ttl_dictionary \<times> ('k \<times> 'v pyobj) list" where
  "items s = (s, data s)"

definition get ::
  "real \<Rightarrow> ('k::linorder, 'v) ttl_dictionary \<Rightarrow> 'k \<Rightarrow> 'v pyobj
   \<Rightarrow> ('k, 'v) ttl_dictionary \<times> 'v pyobj" where
  "get now s key dflt =
     (let s' = clean_expired_unsafe now s
      in (s', case map_of (data s') key of Some v \<Rightarrow> v | None \<Rightarrow> dflt))"

subsection \<open>Histories of calls\<close>

text \<open>
  A history is a list of calls, each with the time at which it runs; \<open>Sweep\<close> is
  one round of the daemon thread. Nothing is assumed about the times.
\<close>

datatype ('k, 'v) call =
  SetItem 'k "'v pyobj" | GetItem 'k | DelItem 'k | Contains 'k | Len
  | Keys | Values | Items | Get 'k "'v pyobj" | Sweep

datatype ('k, 'v) ret =
  RNone | RObj "'v pyobj" | RBool bool | RLen nat
  | RKeys "'k list" | RValues "'v pyobj list" | RItems "('k \<times> 'v pyobj) list"

fun exec ::
  "real \<Rightarrow> ('k::linorder, 'v) call \<Rightarrow> ('k, 'v) ttl_dictionary
   \<Rightarrow> ('k, 'v) ttl_dictionary \<times> (error + ('k, 'v) ret)" where
  "exec now (SetItem key a) s = (case setitem now s key a of (s', r) \<Rightarrow> (s', map_sum id (\<lambda>_. RNone) r))"
| "exec now (GetItem key) s = (case getitem now s key of (s', r) \<Rightarrow> (s', map_sum id RObj r))"
| "exec now (DelItem key) s = (case delitem s key of (s', r) \<Rightarrow> (s', map_sum id (\<lambda>_. RNone) r))"
| "exec now (Contains key) s = (case contains s key of (s', b) \<Rightarrow> (s', Inr (RBool b)))"
| "exec now Len s = (case len s of (s', n) \<Rightarrow> (s', Inr (RLen n)))"
| "exec now Keys s = (case keys s of (s', ks) \<Rightarrow> (s', Inr (RKeys ks)))"
| "exec now Values s = (case values_list s of (s', vs) \<Rightarrow> (s', Inr (RValues vs)))"
| "exec now Items s = (case items s of (s', kvs) \<Rightarrow> (s', Inr (RItems kvs)))"
| "exec now (Get key dflt) s = (case get now s key dflt of (s', v) \<Rightarrow> (s', Inr (RObj v)))"
| "exec now Sweep s = (clean_expired_unsafe now s, Inr RNone)"

fun run ::
  "(real \<times> ('k::linorder, 'v) call) list \<Rightarrow> ('k, 'v) ttl_dictionary \<Rightarrow> ('k, 'v) ttl_dictionary" where
  "run [] s = s"
| "run ((now, c) # cs) s = run cs (fst (exec now c s))"

text \<open>Whether a call writes or deletes the key \<open>K\<close>.\<close>

fun touches :: "'k \<Rightarrow> ('k, 'v) call \<Rightarrow> bool" where
  "touches K (SetItem key a) = (key = K)"
| "touches K (DelItem key) = (key = K)"
| "touches K c = False"

text \<open>
  The expiry time computed by the most recent write of each key in a history
  (a write that raised before reaching the lock has written nothing).
\<close>

fun written_deadline :: "real \<Rightarrow> ('k, 'v) call \<Rightarrow> ('k \<rightharpoonup> deadline) \<Rightarrow> ('k \<rightharpoonup> deadline)" where
  "written_deadline now (SetItem key a) m =
     (case value_and_expiry now a of Inl e \<Rightarrow> m | Inr (value, expiry_time) \<Rightarrow> m(key \<mapsto> expiry_time))"
| "written_deadline now c m = m"

fun current_deadlines ::
  "(real \<times> ('k, 'v) call) list \<Rightarrow> ('k \<rightharpoonup> deadline) \<Rightarrow> ('k \<rightharpoonup> deadline)" where
  "current_deadlines [] m = m"
| "current_deadlines ((now, c) # cs) m = current_deadlines cs (written_deadline now c m)"

subsection \<open>Invariants\<close>

text \<open>
  The keys of the pairs in \<^verbatim>\<open>expiry_times\<close>, counted with multiplicity, are
  the keys of \<^verbatim>\<open>data\<close>, each once.
\<close>

definition no_stale_pairs :: "('k, 'v) ttl_dictionary \<Rightarrow> bool" where
  "no_stale_pairs s =
     (distinct (map fst (data s)) \<and> mset (map snd (expiry_times s)) = mset (map fst (data s)))"

text \<open>Invariant I1, for the expiry times \<open>m\<close> of the most recent writes.\<close>

definition I1 :: "('k \<rightharpoonup> deadline) \<Rightarrow> ('k, 'v) ttl_dictionary \<Rightarrow> bool" where
  "I1 m s = list_all (\<lambda>key. case m key of None \<Rightarrow> False
                                | Some d \<Rightarrow> (d, key) \<in> set (expiry_times s))
              (map fst (data s))"

text \<open>
  Whether a run of the sweep takes the branch \<^verbatim>\<open>except KeyError: pass\<close> in
  some round: the same loop as \<open>clean_expired_unsafe\<close>, watching the key that
  each round pops.
\<close>

function sweep_meets_absent_key :: "real \<Rightarrow> ('k::linorder, 'v) ttl_dictionary \<Rightarrow> bool" where
  "sweep_meets_absent_key now s =
     (if expired_head now s
      then snd (expiry_times s ! 0) \<notin> set (map fst (data s))
           \<or> sweep_meets_absent_key now (pop_expired s)
      else False)"
  by pat_completeness auto

text \<open>Whether some pair of \<^verbatim>\<open>expiry_times\<close> has an expiry time at most \<open>now\<close>.\<close>

definition has_expired_pair :: "real \<Rightarrow> ('k, 'v) ttl_dictionary \<Rightarrow> bool" where
  "has_expired_pair now s = list_ex (\<lambda>(e, k). deadline_le e now) (expiry_times s)"

text \<open>Whether the key \<open>K\<close> has a pair with an expiry time at most \<open>now\<close>.\<close>

definition expired :: "real \<Rightarrow> ('k, 'v) ttl_dictionary \<Rightarrow> 'k \<Rightarrow> bool" where
  "expired now s K = list_ex (\<lambda>(e, k). k = K \<and> deadline_le e now) (expiry_times s)"

text \<open>
  The key \<open>K\<close> holds the value \<open>V\<close> and every pair of \<open>K\<close> in
  \<^verbatim>\<open>expiry_times\<close> has the expiry time infinity.
\<close>

definition pinned :: "'k \<Rightarrow> 'v pyobj \<Rightarrow> ('k, 'v) ttl_dictionary \<Rightarrow> bool" where
  "pinned K V s =
     (map_of (data s) K = Some V \<and> list_all (\<lambda>(e, k). k = K \<longrightarrow> e = Never) (expiry_times s))"

subsection \<open>Two histories used as examples\<close>

text \<open>
  A dictionary with the default daemon sleep time of one second: three writes at time
  0, the key 1 overwritten at once, then three rounds of the daemon.
\<close>

definition stale_heap_history :: "(real \<times> (nat, string) call) list" where
  "stale_heap_history =
     [(0, SetItem 1 (Tuple [Obj ''V1'', Num 1])),
      (0, SetItem 2 (Tuple [Obj ''V2'', Num 5])),
      (0, SetItem 3 (Tuple [Obj ''V'', Num 2])),
      (0, SetItem 1 (Obj ''V1b'')),
      (1, Sweep), (2, Sweep), (3, Sweep)]"

text \<open>
  A dictionary whose daemon sleeps ten seconds: its first round at time 0, then one
  write with a TTL of one second.
\<close>

definition unswept_history :: "(real \<times> (nat, string) call) list" where
  "unswept_history = [(0, Sweep), (0, SetItem 1 (Tuple [Obj ''V'', Num 1]))]"

section \<open>Properties\<close>

subsection \<open>Facts about the heapq functions\<close>

lemma length_siftdown_loop [simp]:
  "length (siftdown_loop heap startpos pos newitem) = length heap"
proof (induction heap startpos pos newitem rule: siftdown_loop.induct)
  case (1 heap startpos pos newitem)
  show ?case
    using "1.IH" by (subst siftdown_loop.simps) (simp add: Let_def)
qed

lemma mset_siftdown_loop:
  "pos < length heap \<Longrightarrow>
   mset (siftdown_loop heap startpos pos newitem) = mset (heap[pos := newitem])"
proof (induction heap startpos pos newitem rule: siftdown_loop.induct)
  case (1 heap startpos pos newitem)
  let ?pp = "(pos - 1) div 2"
  show ?case
  proof (cases "startpos < pos \<and> item_lt newitem (heap ! ?pp)")
    case True
    then have pp: "?pp < pos" by arith
    with "1.prems" have ppl: "?pp < length heap" by simp
    have "mset (siftdown_loop heap startpos pos newitem) =
          mset (siftdown_loop (heap[pos := heap ! ?pp]) startpos ?pp newitem)"
      using True by (subst siftdown_loop.simps) (simp add: Let_def)
    also have "\<dots> = mset ((heap[pos := heap ! ?pp])[?pp := newitem])"
      using True ppl "1.IH"[OF _ refl refl] by simp
    also have "\<dots> = mset (heap[pos := newitem])"
      using pp ppl "1.prems" by (simp add: mset_update nth_list_update)
    finally show ?thesis .
  next
    case False
    then show ?thesis
      by (subst siftdown_loop.simps) (auto simp add: Let_def)
  qed
qed

lemma length_siftdown [simp]: "length (siftdown heap startpos pos) = length heap"
  by (simp add: siftdown_def)

lemma mset_siftdown: "pos < length heap \<Longrightarrow> mset (siftdown heap startpos pos) = mset heap"
  by (simp add: siftdown_def mset_siftdown_loop)

lemma siftup_loop_hole:
  "siftup_loop heap endpos pos = (heap', pos') \<Longrightarrow> pos < length heap \<Longrightarrow> endpos = length heap \<Longrightarrow>
   length heap' = length heap \<and> pos' < length heap \<and>
   mset (heap'[pos' := x]) = mset (heap[pos := x])"
proof (induction heap endpos pos arbitrary: heap' pos' rule: siftup_loop.induct)
  case (1 heap endpos pos)
  let ?c = "2 * pos + 1"
  show ?case
  proof (cases "?c < endpos")
    case False
    with "1.prems" show ?thesis
      by (subst (asm) siftup_loop.simps) (simp add: Let_def)
  next
    case True
    define c' where "c' = (if ?c + 1 < endpos \<and> \<not> item_lt (heap ! ?c) (heap ! (?c + 1))
                           then ?c + 1 else ?c)"
    have c'l: "c' < length heap" and c'p: "pos < c'"
      using True "1.prems"(3) by (auto simp: c'_def)
    have "siftup_loop heap endpos pos = siftup_loop (heap[pos := heap ! c']) endpos c'"
      by (subst siftup_loop.simps) (use True in \<open>simp add: Let_def c'_def\<close>)
    with "1.prems"(1) have step: "siftup_loop (heap[pos := heap ! c']) endpos c' = (heap', pos')"
      by simp
    have ih: "length heap' = length (heap[pos := heap ! c']) \<and> pos' < length (heap[pos := heap ! c'])
              \<and> mset (heap'[pos' := x]) = mset ((heap[pos := heap ! c'])[c' := x])"
      using "1.IH"[OF refl True refl c'_def step] c'l "1.prems"(3) by simp
    have "mset ((heap[pos := heap ! c'])[c' := x]) = mset (heap[pos := x])"
      using c'l c'p "1.prems"(2) by (simp add: mset_update nth_list_update)
    with ih show ?thesis by simp
  qed
qed

lemma siftup_props:
  assumes "pos < length heap"
  shows "length (siftup heap pos) = length heap" and "mset (siftup heap pos) = mset heap"
proof -
  obtain heap' pos' where lp: "siftup_loop heap (length heap) pos = (heap', pos')"
    by (cases "siftup_loop heap (length heap) pos")
  from siftup_loop_hole[OF lp assms refl, of "heap ! pos"]
  have h: "length heap' = length heap" "pos' < length heap"
    "mset (heap'[pos' := heap ! pos]) = mset heap"
    by simp_all
  have eq: "siftup heap pos = siftdown (heap'[pos' := heap ! pos]) pos pos'"
    by (simp add: siftup_def lp)
  show "length (siftup heap pos) = length heap"
    by (simp add: eq h)
  show "mset (siftup heap pos) = mset heap"
    using h by (simp add: eq mset_siftdown)
qed

lemma mset_heappush: "mset (heappush heap item) = add_mset item (mset heap)"
  by (simp add: heappush_def mset_siftdown)

lemma heappop_Nil [simp]: "heappop [] = None"
  by (simp add: heappop_def)

lemma heappop_nonempty:
  assumes "heap \<noteq> []"
  obtains heap' where "heappop heap = Some (heap ! 0, heap')"
    and "mset heap = add_mset (heap ! 0) (mset heap')"
    and "length heap = Suc (length heap')"
proof (cases "butlast heap = []")
  case True
  with assms obtain x where hx: "heap = [x]"
    by (cases heap) (auto split: if_splits)
  show ?thesis
    by (rule that[of "[]"]) (simp_all add: heappop_def hx)
next
  case False
  let ?b = "butlast heap"
  let ?h = "siftup (?b[0 := last heap]) 0"
  have len2: "Suc 0 < length heap"
    using False by (cases heap rule: rev_cases) auto
  then have pos: "0 < length (?b[0 := last heap])" by simp
  have b0: "?b ! 0 = heap ! 0"
    using len2 by (simp add: nth_butlast)
  obtain y ys where b: "?b = y # ys"
    using False by (cases ?b) auto
  have "heap = ?b @ [last heap]"
    using assms by simp
  then have "mset heap = add_mset (last heap) (mset ?b)"
    by (metis mset.simps(2) mset_append union_mset_add_mset_right add.right_neutral mset.simps(1))
  then have "mset heap = add_mset (?b ! 0) (mset (?b[0 := last heap]))"
    by (simp add: b)
  then have m: "mset heap = add_mset (heap ! 0) (mset ?h)"
    using siftup_props(2)[OF pos] b0 by simp
  have l: "length heap = Suc (length ?h)"
    using siftup_props(1)[OF pos] assms by simp
  show ?thesis
    by (rule that[of ?h]) (use assms False b0 m l len2 in \<open>simp_all add: heappop_def Let_def\<close>)
qed


lemma length_pop_expired:
  "expiry_times s \<noteq> [] \<Longrightarrow> length (expiry_times (pop_expired s)) < length (expiry_times s)"
proof -
  assume ne: "expiry_times s \<noteq> []"
  from heappop_nonempty[OF ne] obtain heap' where
    "heappop (expiry_times s) = Some (expiry_times s ! 0, heap')"
    "length (expiry_times s) = Suc (length heap')"
    by metis
  then show ?thesis
    by (simp add: pop_expired_def split: prod.splits)
qed

subsection \<open>The loops over \<^verbatim>\<open>expiry_times\<close> end\<close>

termination clean_expired_unsafe
  by (relation "measure (\<lambda>(now, s). length (expiry_times s))")
     (auto simp: expired_head_def length_pop_expired)

declare clean_expired_unsafe.simps [simp del]

termination sweep_meets_absent_key
  by (relation "measure (\<lambda>(now, s). length (expiry_times s))")
     (auto simp: expired_head_def length_pop_expired)

declare sweep_meets_absent_key.simps [simp del]

subsection \<open>The sweep\<close>

lemma delete_absent: "key \<notin> set (map fst al) \<Longrightarrow> AList.delete key al = al"
  by (induction al) auto

text \<open>
  A round of the loop removes the first item of the list, whatever the order of the
  rest, and deletes its key from \<^verbatim>\<open>data\<close>.
\<close>

lemma pop_expired_step:
  assumes "expiry_times s \<noteq> []"
  obtains heap' where
    "pop_expired s = s\<lparr>expiry_times := heap', data := AList.delete (snd (expiry_times s ! 0)) (data s)\<rparr>"
    and "mset (expiry_times s) = add_mset (expiry_times s ! 0) (mset heap')"
proof -
  from heappop_nonempty[OF assms] obtain heap' where
    hp: "heappop (expiry_times s) = Some (expiry_times s ! 0, heap')"
    and ms: "mset (expiry_times s) = add_mset (expiry_times s ! 0) (mset heap')"
    by metis
  have "pop_expired s = s\<lparr>expiry_times := heap', data := AList.delete (snd (expiry_times s ! 0)) (data s)\<rparr>"
    by (cases "expiry_times s ! 0") (simp add: pop_expired_def hp delete_absent)
  with ms show ?thesis by (rule that[rotated -1])
qed

lemma clean_invariant:
  assumes step: "\<And>s. P s \<Longrightarrow> expired_head now s \<Longrightarrow> P (pop_expired s)"
  shows "P s \<Longrightarrow> P (clean_expired_unsafe now s)"
proof (induction "length (expiry_times s)" arbitrary: s rule: less_induct)
  case less
  show ?case
  proof (cases "expired_head now s")
    case True
    then have "length (expiry_times (pop_expired s)) < length (expiry_times s)"
      by (simp add: expired_head_def length_pop_expired)
    then have "P (clean_expired_unsafe now (pop_expired s))"
      using less.hyps step[OF less.prems True] by blast
    then show ?thesis
      using True by (subst clean_expired_unsafe.simps) simp
  next
    case False
    then show ?thesis
      using less.prems by (subst clean_expired_unsafe.simps) simp
  qed
qed

lemma clean_stops: "\<not> expired_head now (clean_expired_unsafe now s)"
proof (induction "length (expiry_times s)" arbitrary: s rule: less_induct)
  case less
  show ?case
  proof (cases "expired_head now s")
    case True
    then have "length (expiry_times (pop_expired s)) < length (expiry_times s)"
      by (simp add: expired_head_def length_pop_expired)
    then have "\<not> expired_head now (clean_expired_unsafe now (pop_expired s))"
      using less.hyps by blast
    then show ?thesis
      using True by (subst clean_expired_unsafe.simps) simp
  next
    case False
    then show ?thesis
      by (subst clean_expired_unsafe.simps) simp
  qed
qed

lemma clean_idle: "\<not> expired_head now s \<Longrightarrow> clean_expired_unsafe now s = s"
  by (subst clean_expired_unsafe.simps) simp

text \<open>
  C8 (idempotent sweep). For every state and every time \<open>now\<close>, a second run of
  \<^verbatim>\<open>_clean_expired_unsafe\<close> at the same \<open>now\<close> returns the state the first
  run left: it removes no key and changes nothing. The function is total, so the
  run ends without an exception; on an empty \<^verbatim>\<open>expiry_times\<close> it returns the
  state as it was.
\<close>

theorem sweep_idempotent:
  "clean_expired_unsafe now (clean_expired_unsafe now s) = clean_expired_unsafe now s
   \<and> clean_expired_unsafe now (s\<lparr>expiry_times := []\<rparr>) = s\<lparr>expiry_times := []\<rparr>"
proof
  show "clean_expired_unsafe now (clean_expired_unsafe now s) = clean_expired_unsafe now s"
    by (rule clean_idle) (rule clean_stops)
  show "clean_expired_unsafe now (s\<lparr>expiry_times := []\<rparr>) = s\<lparr>expiry_times := []\<rparr>"
    by (rule clean_idle) (simp add: expired_head_def)
qed

subsection \<open>No stale pairs\<close>

lemma no_stale_pairs_pop:
  assumes "no_stale_pairs s" "expiry_times s \<noteq> []"
  shows "no_stale_pairs (pop_expired s)" and "snd (expiry_times s ! 0) \<in> set (map fst (data s))"
proof -
  obtain heap' where
    p: "pop_expired s = s\<lparr>expiry_times := heap', data := AList.delete (snd (expiry_times s ! 0)) (data s)\<rparr>"
    and m: "mset (expiry_times s) = add_mset (expiry_times s ! 0) (mset heap')"
    using pop_expired_step[OF assms(2)] by metis
  let ?k = "snd (expiry_times s ! 0)"
  from m have mk: "mset (map snd (expiry_times s)) = add_mset ?k (mset (map snd heap'))"
    by (metis image_mset_add_mset mset_map)
  with assms(1) have ms: "mset (map fst (data s)) = add_mset ?k (mset (map snd heap'))"
    by (simp add: no_stale_pairs_def)
  then have "?k \<in># mset (map fst (data s))" by simp
  then show "?k \<in> set (map fst (data s))" by (simp only: set_mset_mset)
  have d: "distinct (map fst (data s))" using assms(1) by (simp add: no_stale_pairs_def)
  have "mset (map fst (AList.delete ?k (data s))) = mset (map fst (data s)) - {#?k#}"
    using d by (simp add: delete_keys distinct_remove1_removeAll[symmetric])
  with ms have "mset (map fst (AList.delete ?k (data s))) = mset (map snd heap')" by simp
  then show "no_stale_pairs (pop_expired s)"
    using d by (simp add: p no_stale_pairs_def distinct_delete)
qed

lemma set_heappush: "set (heappush heap item) = insert item (set heap)"
proof -
  have "set_mset (mset (heappush heap item)) = set_mset (add_mset item (mset heap))"
    by (simp only: mset_heappush)
  then show ?thesis by simp
qed

lemma keys_filter_other:
  "mset (map snd (filter (\<lambda>(e, k). k \<noteq> key) heap)) = filter_mset (\<lambda>k. k \<noteq> key) (mset (map snd heap))"
  by (induction heap) auto

lemma no_stale_pairs_purge:
  assumes "no_stale_pairs s"
  shows "mset (map snd (filter (\<lambda>(e, k). k \<noteq> key) (expiry_times s))) = mset (removeAll key (map fst (data s)))"
proof -
  have eq: "mset (map snd (expiry_times s)) = mset (map fst (data s))"
    using assms by (simp add: no_stale_pairs_def)
  have "mset (map snd (filter (\<lambda>(e, k). k \<noteq> key) (expiry_times s)))
        = filter_mset (\<lambda>k. k \<noteq> key) (mset (map snd (expiry_times s)))"
    by (rule keys_filter_other)
  also have "\<dots> = filter_mset (\<lambda>k. k \<noteq> key) (mset (map fst (data s)))"
    by (simp only: eq)
  also have "\<dots> = mset (filter (\<lambda>k. k \<noteq> key) (map fst (data s)))"
    by simp
  also have "filter (\<lambda>k. k \<noteq> key) (map fst (data s)) = removeAll key (map fst (data s))"
    by (simp add: removeAll_filter_not_eq neq_commute)
  finally show ?thesis .
qed

lemma no_stale_pairs_store:
  assumes "no_stale_pairs s"
  shows "no_stale_pairs (store key v d s)"
proof (cases "key \<in> set (map fst (data s))")
  case True
  have d: "distinct (map fst (data s))" using assms by (simp add: no_stale_pairs_def)
  have "mset (removeAll key (map fst (data s))) = mset (map fst (data s)) - {#key#}"
    using d by (simp add: distinct_remove1_removeAll[symmetric])
  then have "add_mset key (mset (removeAll key (map fst (data s)))) = mset (map fst (data s))"
    using True by simp
  then show ?thesis
    using True d no_stale_pairs_purge[OF assms, of key]
    by (simp add: store_def no_stale_pairs_def mset_heappush update_keys)
next
  case False
  then show ?thesis
    using assms by (simp add: store_def no_stale_pairs_def mset_heappush update_keys)
qed

lemma no_stale_pairs_delitem:
  assumes "no_stale_pairs s"
  shows "no_stale_pairs (fst (delitem s key))"
proof (cases "key \<in> set (map fst (data s))")
  case True
  have d: "distinct (map fst (data s))" using assms by (simp add: no_stale_pairs_def)
  show ?thesis
    using True d no_stale_pairs_purge[OF assms, of key]
    by (simp add: delitem_def no_stale_pairs_def delete_keys distinct_removeAll)
next
  case False
  then show ?thesis using assms by (simp add: delitem_def)
qed

lemma no_stale_pairs_clean:
  "no_stale_pairs s \<Longrightarrow> no_stale_pairs (clean_expired_unsafe now s)"
  by (rule clean_invariant[where P = no_stale_pairs]) (simp_all add: expired_head_def no_stale_pairs_pop(1))

lemma no_stale_pairs_exec:
  "no_stale_pairs s \<Longrightarrow> no_stale_pairs (fst (exec now c s))"
  by (cases c)
     (simp_all add: setitem_def getitem_def get_def contains_def len_def keys_def
        values_list_def items_def no_stale_pairs_store no_stale_pairs_delitem no_stale_pairs_clean
        Let_def split_beta split: sum.splits)

lemma no_stale_pairs_run:
  "no_stale_pairs s \<Longrightarrow> no_stale_pairs (run h s)"
  by (induction h arbitrary: s) (auto simp: no_stale_pairs_exec)

lemma no_stale_pairs_init: "no_stale_pairs (init t)"
  by (simp add: no_stale_pairs_def init_def)

lemma no_absent_key_in_sweep:
  "no_stale_pairs s \<Longrightarrow> \<not> sweep_meets_absent_key now s"
proof (induction "length (expiry_times s)" arbitrary: s rule: less_induct)
  case less
  show ?case
  proof (cases "expired_head now s")
    case True
    then have ne: "expiry_times s \<noteq> []" by (simp add: expired_head_def)
    then have "length (expiry_times (pop_expired s)) < length (expiry_times s)"
      by (simp add: length_pop_expired)
    then have "\<not> sweep_meets_absent_key now (pop_expired s)"
      using less.hyps no_stale_pairs_pop(1)[OF less.prems ne] by blast
    then show ?thesis
      using True no_stale_pairs_pop(2)[OF less.prems ne]
      by (subst sweep_meets_absent_key.simps) simp
  next
    case False
    then show ?thesis
      by (subst sweep_meets_absent_key.simps) simp
  qed
qed

text \<open>
  C9 (no stale pairs). After construction and after any history of calls and sweeps,
  the keys of the pairs in \<^verbatim>\<open>expiry_times\<close>, counted with multiplicity, are
  exactly the keys of \<^verbatim>\<open>data\<close>, each once: every stored key has exactly one
  pair and every pair belongs to a stored key. From such a state no round of the sweep
  pops a key that is absent from \<^verbatim>\<open>data\<close>, so the branch that swallows the
  KeyError is never taken.
\<close>

theorem no_stale_pairs_reachable:
  "no_stale_pairs (run h (init t)) \<and> \<not> sweep_meets_absent_key now (run h (init t))"
  by (simp add: no_stale_pairs_run no_stale_pairs_init no_absent_key_in_sweep)

theorem no_stale_pairs_reachable_witness:
  "no_stale_pairs (run [(0, SetItem (1::nat) (Tuple [Obj ''a'', Num 1])), (0, SetItem 2 (Obj ''b'')),
                        (0, SetItem 1 (Obj ''c'')), (3, DelItem 2), (4, Sweep)] (init 1)
                   :: (nat, string) ttl_dictionary)
   \<and> \<not> sweep_meets_absent_key 5
         (run [(0, SetItem (1::nat) (Tuple [Obj ''a'', Num 1])), (0, SetItem 2 (Obj ''b'')),
               (0, SetItem 1 (Obj ''c'')), (3, DelItem 2), (4, Sweep)] (init 1)
          :: (nat, string) ttl_dictionary)
   \<and> run [(0, SetItem (1::nat) (Tuple [Obj ''a'', Num 1])), (0, SetItem 2 (Obj ''b'')),
           (0, SetItem 1 (Obj ''c'')), (3, DelItem 2), (4, Sweep)] (init 1)
       = \<lparr>data = [(1, Obj ''c'')], expiry_times = [(Never, 1)], daemon_sleep_time = 1\<rparr>"
proof -
  have e: "run [(0, SetItem (1::nat) (Tuple [Obj ''a'', Num 1])), (0, SetItem 2 (Obj ''b'')),
           (0, SetItem 1 (Obj ''c'')), (3, DelItem 2), (4, Sweep)] (init 1)
       = \<lparr>data = [(1, Obj ''c'')], expiry_times = [(Never, 1)], daemon_sleep_time = 1\<rparr>"
    by code_simp
  from no_stale_pairs_reachable[of
      "[(0, SetItem (1::nat) (Tuple [Obj ''a'', Num 1])), (0, SetItem 2 (Obj ''b'')),
        (0, SetItem 1 (Obj ''c'')), (3, DelItem 2), (4, Sweep)]" 1 5] e
  show ?thesis by blast
qed

subsection \<open>Invariant I1\<close>

lemma I1_iff:
  "I1 m s = (\<forall>key \<in> set (map fst (data s)). \<exists>d. m key = Some d \<and> (d, key) \<in> set (expiry_times s))"
  by (auto simp: I1_def list_all_iff split: option.splits)

lemma set_purge_other:
  "k \<noteq> key \<Longrightarrow> (d, k) \<in> set (filter (\<lambda>(e, k'). k' \<noteq> key) heap) = ((d, k) \<in> set heap)"
  by auto

lemma set_pop_expired:
  assumes "expiry_times s \<noteq> []"
  shows "set (expiry_times s) = insert (expiry_times s ! 0) (set (expiry_times (pop_expired s)))"
    and "data (pop_expired s) = AList.delete (snd (expiry_times s ! 0)) (data s)"
proof -
  obtain heap' where
    p: "pop_expired s = s\<lparr>expiry_times := heap', data := AList.delete (snd (expiry_times s ! 0)) (data s)\<rparr>"
    and m: "mset (expiry_times s) = add_mset (expiry_times s ! 0) (mset heap')"
    using pop_expired_step[OF assms] by metis
  have "set_mset (mset (expiry_times s)) = set_mset (add_mset (expiry_times s ! 0) (mset heap'))"
    by (simp only: m)
  then show "set (expiry_times s) = insert (expiry_times s ! 0) (set (expiry_times (pop_expired s)))"
    by (simp add: p)
  show "data (pop_expired s) = AList.delete (snd (expiry_times s ! 0)) (data s)"
    by (simp add: p)
qed

lemma I1_pop:
  assumes "I1 m s" "expiry_times s \<noteq> []"
  shows "I1 m (pop_expired s)"
  unfolding I1_iff
proof
  fix key assume k: "key \<in> set (map fst (data (pop_expired s)))"
  let ?k0 = "snd (expiry_times s ! 0)"
  from k have "key \<in> set (removeAll ?k0 (map fst (data s)))"
    by (simp only: set_pop_expired(2)[OF assms(2)] delete_keys)
  then have ne: "key \<noteq> ?k0" and "key \<in> set (map fst (data s))" by auto
  with assms(1) obtain d where d: "m key = Some d" "(d, key) \<in> set (expiry_times s)"
    unfolding I1_iff by blast
  from ne have "(d, key) \<noteq> expiry_times s ! 0"
    by (metis snd_conv)
  with d(2) have "(d, key) \<in> set (expiry_times (pop_expired s))"
    by (subst (asm) set_pop_expired(1)[OF assms(2)]) simp
  with d(1) show "\<exists>d. m key = Some d \<and> (d, key) \<in> set (expiry_times (pop_expired s))"
    by blast
qed

lemma I1_clean: "I1 m s \<Longrightarrow> I1 m (clean_expired_unsafe now s)"
  by (rule clean_invariant[where P = "I1 m"]) (simp_all add: expired_head_def I1_pop)

lemma I1_store:
  assumes "I1 m s"
  shows "I1 (m(key \<mapsto> d)) (store key v d s)"
  unfolding I1_iff
proof
  fix k assume "k \<in> set (map fst (data (store key v d s)))"
  then have k: "k = key \<or> (k \<noteq> key \<and> k \<in> set (map fst (data s)))"
    by (auto simp: store_def Let_def update_keys split: if_splits)
  show "\<exists>d'. (m(key \<mapsto> d)) k = Some d' \<and> (d', k) \<in> set (expiry_times (store key v d s))"
  proof (cases "k = key")
    case True
    then show ?thesis by (simp add: store_def Let_def set_heappush)
  next
    case False
    with k assms obtain d' where "m k = Some d'" "(d', k) \<in> set (expiry_times s)"
      unfolding I1_iff by blast
    with False show ?thesis
      by (simp add: store_def Let_def set_heappush set_purge_other)
  qed
qed

lemma I1_delitem:
  assumes "I1 m s"
  shows "I1 m (fst (delitem s key))"
proof (cases "key \<in> set (map fst (data s))")
  case True
  show ?thesis
    unfolding I1_iff
  proof
    fix k assume "k \<in> set (map fst (data (fst (delitem s key))))"
    with True have "k \<noteq> key" "k \<in> set (map fst (data s))"
      by (auto simp: delitem_def delete_keys)
    with assms obtain d' where "m k = Some d'" "(d', k) \<in> set (expiry_times s)"
      unfolding I1_iff by blast
    with \<open>k \<noteq> key\<close> True
    show "\<exists>d. m k = Some d \<and> (d, k) \<in> set (expiry_times (fst (delitem s key)))"
      by (simp add: delitem_def set_purge_other)
  qed
next
  case False
  then show ?thesis using assms by (simp add: delitem_def)
qed

lemma I1_exec:
  "I1 m s \<Longrightarrow> I1 (written_deadline now c m) (fst (exec now c s))"
  by (cases c)
     (simp_all add: setitem_def getitem_def get_def contains_def len_def keys_def
        values_list_def items_def I1_store I1_delitem I1_clean
        Let_def split_beta split: sum.splits)

lemma I1_run:
  "I1 m s \<Longrightarrow> I1 (current_deadlines h m) (run h s)"
  by (induction h arbitrary: s m) (auto simp: I1_exec)

text \<open>
  C4 (invariant I1). I1 holds after construction, every call (\<^verbatim>\<open>__setitem__\<close>,
  \<^verbatim>\<open>__getitem__\<close>, \<^verbatim>\<open>get\<close>, \<^verbatim>\<open>__delitem__\<close>,
  \<^verbatim>\<open>__contains__\<close>, \<^verbatim>\<open>__len__\<close>, \<^verbatim>\<open>keys\<close>, \<^verbatim>\<open>values\<close>,
  \<^verbatim>\<open>items\<close>) and every sweep preserves it, and so it holds after every history:
  each key present in \<^verbatim>\<open>data\<close> has a pair in \<^verbatim>\<open>expiry_times\<close> whose
  expiry time is the one computed by the most recent write of that key.
\<close>

theorem I1_preserved:
  "I1 Map.empty (init t)
   \<and> (I1 m s \<longrightarrow> I1 (written_deadline now c m) (fst (exec now c s)))
   \<and> I1 (current_deadlines h Map.empty) (run h (init t))"
proof (intro conjI impI)
  show i: "I1 Map.empty (init t)"
    by (simp add: I1_def init_def)
  show "I1 (written_deadline now c m) (fst (exec now c s))" if "I1 m s"
    using that by (rule I1_exec)
  show "I1 (current_deadlines h Map.empty) (run h (init t))"
    using i by (rule I1_run)
qed

theorem I1_preserved_witness:
  "I1 Map.empty (init 1 :: (nat, string) ttl_dictionary)
   \<and> I1 (written_deadline 0 (SetItem (1::nat) (Tuple [Obj ''a'', Num 5])) Map.empty)
        (fst (exec 0 (SetItem 1 (Tuple [Obj ''a'', Num 5])) (init 1 :: (nat, string) ttl_dictionary)))
   \<and> I1 (current_deadlines [(0, SetItem (1::nat) (Tuple [Obj ''a'', Num 5])), (2, SetItem 1 (Obj ''b'')),
                              (9, Sweep)] Map.empty)
        (run [(0, SetItem 1 (Tuple [Obj ''a'', Num 5])), (2, SetItem 1 (Obj ''b'')), (9, Sweep)]
           (init 1 :: (nat, string) ttl_dictionary))
   \<and> map fst (data (run [(0, SetItem (1::nat) (Tuple [Obj ''a'', Num 5])), (2, SetItem 1 (Obj ''b'')),
                           (9, Sweep)] (init 1 :: (nat, string) ttl_dictionary))) = [1]
   \<and> current_deadlines [(0, SetItem (1::nat) (Tuple [Obj ''a'', Num 5])),
          (2, SetItem 1 (Obj ''b'' :: string pyobj)), (9, Sweep)] Map.empty 1 = Some Never"
proof -
  note th = I1_preserved[of 1 Map.empty "init 1 :: (nat, string) ttl_dictionary" 0
      "SetItem (1::nat) (Tuple [Obj ''a'', Num 5])"
      "[(0, SetItem (1::nat) (Tuple [Obj ''a'', Num 5])), (2, SetItem 1 (Obj ''b'')), (9, Sweep)]"]
  have k: "map fst (data (run [(0, SetItem (1::nat) (Tuple [Obj ''a'', Num 5])), (2, SetItem 1 (Obj ''b'')),
                           (9, Sweep)] (init 1 :: (nat, string) ttl_dictionary))) = [1]"
    by code_simp
  have d: "current_deadlines [(0, SetItem (1::nat) (Tuple [Obj ''a'', Num 5])),
          (2, SetItem 1 (Obj ''b'' :: string pyobj)), (9, Sweep)] Map.empty 1 = Some Never"
    by simp
  from th k d show ?thesis by blast
qed

subsection \<open>Entries that never expire\<close>

lemma pinned_iff:
  "pinned K V s = (map_of (data s) K = Some V \<and> (\<forall>e. (e, K) \<in> set (expiry_times s) \<longrightarrow> e = Never))"
  by (auto simp: pinned_def list_all_iff)

lemma pinned_pop:
  assumes "pinned K V s" "expired_head now s"
  shows "pinned K V (pop_expired s)"
proof -
  from assms(2) have ne: "expiry_times s \<noteq> []"
    and le: "deadline_le (fst (expiry_times s ! 0)) now"
    by (simp_all add: expired_head_def)
  let ?k0 = "snd (expiry_times s ! 0)"
  have "expiry_times s ! 0 \<in> set (expiry_times s)" using ne by simp
  then have "(fst (expiry_times s ! 0), ?k0) \<in> set (expiry_times s)" by simp
  with assms(1) le have k0: "?k0 \<noteq> K"
    unfolding pinned_iff by (metis deadline_le.simps(2))
  have "set (expiry_times (pop_expired s)) \<subseteq> set (expiry_times s)"
    using set_pop_expired(1)[OF ne] by auto
  with assms(1) k0 show ?thesis
    unfolding pinned_iff by (auto simp: set_pop_expired(2)[OF ne])
qed

lemma pinned_clean: "pinned K V s \<Longrightarrow> pinned K V (clean_expired_unsafe now s)"
  by (rule clean_invariant[where P = "pinned K V"]) (simp_all add: pinned_pop)

lemma pinned_store_other:
  "key \<noteq> K \<Longrightarrow> pinned K V s \<Longrightarrow> pinned K V (store key v d s)"
  unfolding pinned_iff
  by (auto simp: store_def Let_def set_heappush update_conv' split: if_splits)

lemma pinned_delitem_other:
  "key \<noteq> K \<Longrightarrow> pinned K V s \<Longrightarrow> pinned K V (fst (delitem s key))"
  unfolding pinned_iff
  by (auto simp: delitem_def split: if_splits)

lemma pinned_exec:
  "pinned K V s \<Longrightarrow> \<not> touches K c \<Longrightarrow> pinned K V (fst (exec now c s))"
  by (cases c)
     (simp_all add: setitem_def getitem_def get_def contains_def len_def keys_def
        values_list_def items_def pinned_store_other pinned_delitem_other pinned_clean
        Let_def split_beta split: sum.splits)

lemma pinned_run:
  "pinned K V s \<Longrightarrow> \<not> list_ex (\<lambda>(now, c). touches K c) h \<Longrightarrow> pinned K V (run h s)"
  by (induction h arbitrary: s) (auto simp: pinned_exec)

lemma no_stale_pairs_absent:
  assumes "no_stale_pairs s" "K \<notin> set (map fst (data s))"
  shows "(e, K) \<notin> set (expiry_times s)"
proof
  assume "(e, K) \<in> set (expiry_times s)"
  then have "K \<in> set (map snd (expiry_times s))" by force
  moreover have "mset (map snd (expiry_times s)) = mset (map fst (data s))"
    using assms(1) by (simp add: no_stale_pairs_def)
  then have "set (map snd (expiry_times s)) = set (map fst (data s))"
    by (rule mset_eq_setD)
  ultimately show False using assms(2) by simp
qed

lemma pinned_store:
  assumes "no_stale_pairs s"
  shows "pinned K V (store K V Never s)"
  unfolding pinned_iff
  using no_stale_pairs_absent[OF assms, of K]
  by (auto simp: store_def Let_def set_heappush update_conv')

lemma pinned_getitem: "pinned K V s \<Longrightarrow> snd (getitem now s K) = Inr V"
  using pinned_clean[of K V s now] by (simp add: getitem_def Let_def pinned_iff)


lemma run_append: "run (h1 @ h2) s = run h2 (run h1 s)"
  by (induction h1 arbitrary: s) auto

lemma pinned_after_write:
  assumes "value_and_expiry t0 a = Inr (V, Never)"
    and "\<not> list_ex (\<lambda>(now, c). touches K c) h2"
  shows "pinned K V (run (h1 @ [(t0, SetItem K a)] @ h2) (init t))"
proof -
  have "no_stale_pairs (run h1 (init t))"
    by (simp add: no_stale_pairs_run no_stale_pairs_init)
  then have "pinned K V (store K V Never (run h1 (init t)))"
    by (rule pinned_store)
  then have "pinned K V (run [(t0, SetItem K a)] (run h1 (init t)))"
    using assms(1) by (simp add: setitem_def)
  then have "pinned K V (run h2 (run [(t0, SetItem K a)] (run h1 (init t))))"
    using assms(2) by (rule pinned_run)
  then show ?thesis
    by (simp only: run_append)
qed



text \<open>
  C6 (overwrite resets the deadline). After any history, a write of \<open>V1\<close> under
  \<open>K\<close> with a TTL of 1, any calls, and then a write of \<open>V2\<close> under \<open>K\<close>
  with the TTL \<^verbatim>\<open>None\<close>: the pair of the first write is gone from
  \<^verbatim>\<open>expiry_times\<close>, and after any further calls and sweeps at any times that
  neither write nor delete \<open>K\<close>, \<^verbatim>\<open>__getitem__\<close> returns \<open>V2\<close>.
\<close>

theorem overwrite_resets_deadline:
  assumes "\<not> list_ex (\<lambda>(now, c). touches K c) h2"
  shows "snd (getitem now
            (run ((h1 @ (t0, SetItem K (Tuple [V1, Num 1])) # hm)
                  @ [(t1, SetItem K (Tuple [V2, PNone]))] @ h2) (init t)) K) = Inr V2
         \<and> (At (t0 + 1), K) \<notin> set (expiry_times
              (run ((h1 @ (t0, SetItem K (Tuple [V1, Num 1])) # hm)
                    @ [(t1, SetItem K (Tuple [V2, PNone]))] @ h2) (init t)))"
proof -
  have "value_and_expiry t1 (Tuple [V2, PNone]) = Inr (V2, Never)"
    by simp
  then have p: "pinned K V2
      (run ((h1 @ (t0, SetItem K (Tuple [V1, Num 1])) # hm)
            @ [(t1, SetItem K (Tuple [V2, PNone]))] @ h2) (init t))"
    using assms by (rule pinned_after_write)
  then have "(At (t0 + 1), K) \<notin> set (expiry_times
              (run ((h1 @ (t0, SetItem K (Tuple [V1, Num 1])) # hm)
                    @ [(t1, SetItem K (Tuple [V2, PNone]))] @ h2) (init t)))"
    unfolding pinned_iff by blast
  with p show ?thesis
    by (simp only: pinned_getitem simp_thms)
qed

theorem overwrite_resets_deadline_witness:
  "\<not> list_ex (\<lambda>(now, c). touches (1::nat) c) [(1, Sweep), (2, Sweep), (3, Contains 1)]
   \<and> snd (getitem 4
        (run (([] @ (0, SetItem (1::nat) (Tuple [Obj ''v1'', Num 1])) # [])
              @ [(1 / 2, SetItem 1 (Tuple [Obj ''v2'', PNone]))]
              @ [(1, Sweep), (2, Sweep), (3, Contains 1)]) (init 1)) 1) = Inr (Obj ''v2'')"
proof -
  have h: "\<not> list_ex (\<lambda>(now, c). touches (1::nat) c) [(1, Sweep), (2, Sweep), (3, Contains 1)]"
    by simp
  from overwrite_resets_deadline[OF h, of 4 "[]" 0 "Obj ''v1''" "[]" "1 / 2" "Obj ''v2''" 1] h
  show ?thesis by blast
qed

subsection \<open>Expired entries and the order of the list\<close>

text \<open>
  What the sweep does guarantee: when it returns, the list is empty or the expiry
  time of its first item is after \<open>now\<close>.
\<close>

lemma sweep_head_not_expired:
  "expiry_times (clean_expired_unsafe now s) = []
   \<or> \<not> deadline_le (fst (expiry_times (clean_expired_unsafe now s) ! 0)) now"
  using clean_stops[of now s] by (auto simp: expired_head_def)

text \<open>
  C1 (sweep completeness) fails on the code. The overwrite in \<^verbatim>\<open>__setitem__\<close>
  filters \<^verbatim>\<open>expiry_times\<close> with a list comprehension and pushes onto the result
  without restoring the heap order, so the first item of the list need not be the
  smallest. In the example the key 3 is written at time 0 with a TTL of 2 and never
  written again; the overwrite of key 1 leaves the list as \<open>[(5, 2), (2, 3), (inf, 1)]\<close>.
  Every sweep up to time 5 looks at the pair of key 2 and stops: at time 4, after more
  than the TTL plus one daemon round, the sweep changes nothing, a pair with an expiry
  time of 2 is still in the list, and \<^verbatim>\<open>__getitem__\<close> returns the value of key 3.
\<close>

theorem sweep_leaves_expired_entry:
  "expiry_times (run stale_heap_history (init 1)) = [(At 5, 2), (At 2, 3), (Never, 1)]
   \<and> clean_expired_unsafe 4 (run stale_heap_history (init 1)) = run stale_heap_history (init 1)
   \<and> has_expired_pair 4 (clean_expired_unsafe 4 (run stale_heap_history (init 1)))
   \<and> snd (getitem 4 (run stale_heap_history (init 1)) 3) = Inr (Obj ''V'')"
  by code_simp

subsection \<open>Negative TTL\<close>

text \<open>
  C2 as stated fails: a write with a TTL of -1 on the empty dictionary returns
  normally and changes \<^verbatim>\<open>data\<close> and \<^verbatim>\<open>expiry_times\<close>.
\<close>

theorem negative_ttl_example:
  "snd (setitem 0 (init 1) (1::nat) (Tuple [Obj ''v'', Num (- 1)])) = Inr ()
   \<and> fst (setitem 0 (init 1) (1::nat) (Tuple [Obj ''v'', Num (- 1)])) \<noteq> init 1
   \<and> data (fst (setitem 0 (init 1) (1::nat) (Tuple [Obj ''v'', Num (- 1)]))) = [(1, Obj ''v'')]
   \<and> expiry_times (fst (setitem 0 (init 1) (1::nat) (Tuple [Obj ''v'', Num (- 1)]))) = [(At (- 1), 1)]"
  by code_simp

text \<open>
  C2, amended. \<^verbatim>\<open>__setitem__\<close> does not validate the TTL: for every key, value and
  negative TTL the write succeeds like any other write, the key is mapped to the value,
  and \<^verbatim>\<open>expiry_times\<close> holds the pair of \<open>now + ttl\<close> and the key, an expiry
  time that has already passed (the TTL is neither truncated to zero nor read as
  never-expire).
\<close>

theorem negative_ttl_accepted:
  assumes "ttl < 0"
  shows "snd (setitem now s key (Tuple [v, Num ttl])) = Inr ()
         \<and> map_of (data (fst (setitem now s key (Tuple [v, Num ttl])))) key = Some v
         \<and> (At (now + ttl), key) \<in> set (expiry_times (fst (setitem now s key (Tuple [v, Num ttl]))))
         \<and> deadline_le (At (now + ttl)) now"
  using assms by (simp add: setitem_def store_def Let_def set_heappush update_conv')

theorem negative_ttl_accepted_witness:
  "(- 3 :: real) < 0
   \<and> snd (setitem 10 (init 1) (1::nat) (Tuple [Obj ''v'', Num (- 3)])) = Inr ()
   \<and> map_of (data (fst (setitem 10 (init 1) (1::nat) (Tuple [Obj ''v'', Num (- 3)])))) 1 = Some (Obj ''v'')
   \<and> (At (10 + - 3), 1) \<in> set (expiry_times (fst (setitem 10 (init 1) (1::nat) (Tuple [Obj ''v'', Num (- 3)]))))
   \<and> deadline_le (At (10 + - 3)) 10"
proof -
  have h: "(- 3 :: real) < 0" by simp
  from negative_ttl_accepted[OF h, of 10 "init 1" "1::nat" "Obj ''v''"] h
  show ?thesis by blast
qed

subsection \<open>\<^verbatim>\<open>__delitem__\<close>\<close>

text \<open>
  C3 as stated fails: \<^verbatim>\<open>__delitem__\<close> does not sweep. At time 5 the key 1,
  written at time 0 with a TTL of 1, has expired but no sweep has run since;
  the key is still in \<^verbatim>\<open>data\<close> and the deletion succeeds instead of raising.
\<close>

theorem delete_of_expired_key_example:
  "expired 5 (run unswept_history (init 10)) 1
   \<and> snd (delitem (run unswept_history (init 10)) 1) = Inr ()
   \<and> (snd (delitem (run unswept_history (init 10)) 1) = Inl KeyError)
     \<noteq> (1 \<notin> set (map fst (data (run unswept_history (init 10))))
         \<or> expired 5 (run unswept_history (init 10)) 1)"
  by code_simp

text \<open>
  C3, amended. \<^verbatim>\<open>__delitem__\<close> raises KeyError exactly when the key is absent
  from \<^verbatim>\<open>data\<close> at the time of the call (an expired key that no sweep has removed
  yet is present and is deleted); when it raises, \<^verbatim>\<open>data\<close> and
  \<^verbatim>\<open>expiry_times\<close> are unchanged; when it succeeds, the key is gone from
  \<^verbatim>\<open>data\<close> and no pair of \<^verbatim>\<open>expiry_times\<close> carries it.
\<close>

theorem delitem_behaviour:
  "(snd (delitem s K) = Inl KeyError) = (K \<notin> set (map fst (data s)))
   \<and> (snd (delitem s K) = Inl KeyError \<longrightarrow> fst (delitem s K) = s)
   \<and> (snd (delitem s K) \<noteq> Inl KeyError \<longrightarrow>
        snd (delitem s K) = Inr ()
        \<and> K \<notin> set (map fst (data (fst (delitem s K))))
        \<and> K \<notin> set (map snd (expiry_times (fst (delitem s K)))))"
proof (cases "K \<in> set (map fst (data s))")
  case True
  have "K \<notin> set (map fst (AList.delete K (data s)))"
    by (simp only: delete_keys) simp
  moreover have "K \<notin> set (map snd (filter (\<lambda>(e, k). k \<noteq> K) (expiry_times s)))"
    by auto
  ultimately show ?thesis
    using True by (simp add: delitem_def)
next
  case False
  then show ?thesis
    by (simp add: delitem_def)
qed

theorem delitem_behaviour_witness:
  "snd (delitem (run unswept_history (init 10)) 2) = Inl KeyError
   \<and> fst (delitem (run unswept_history (init 10)) 2) = run unswept_history (init 10)
   \<and> snd (delitem (run unswept_history (init 10)) 1) = Inr ()
   \<and> 1 \<notin> set (map fst (data (fst (delitem (run unswept_history (init 10)) 1))))
   \<and> 1 \<notin> set (map snd (expiry_times (fst (delitem (run unswept_history (init 10)) 1))))"
proof -
  have a: "2 \<notin> set (map fst (data (run unswept_history (init 10))))"
    by code_simp
  have b: "\<not> 1 \<notin> set (map fst (data (run unswept_history (init 10))))"
    by code_simp
  from delitem_behaviour[of "run unswept_history (init 10)" 2]
    delitem_behaviour[of "run unswept_history (init 10)" 1] a b
  show ?thesis by blast
qed

subsection \<open>Queries\<close>

text \<open>
  C7 (query frame). \<^verbatim>\<open>__contains__\<close>, \<^verbatim>\<open>__len__\<close>, \<^verbatim>\<open>keys\<close>,
  \<^verbatim>\<open>values\<close> and \<^verbatim>\<open>items\<close> return the state they were given: none of them
  sweeps, so a key that has expired but is still in \<^verbatim>\<open>data\<close> counts as present.
  Their results are read off \<^verbatim>\<open>data\<close> as it is at the call: membership, the
  number of entries, and the lists of keys, values and pairs in insertion order (the
  results are values of their own, later calls cannot change them).
\<close>

theorem query_frame:
  "fst (contains s key) = s \<and> fst (len s) = s \<and> fst (keys s) = s
   \<and> fst (values_list s) = s \<and> fst (items s) = s
   \<and> snd (contains s key) = (map_of (data s) key \<noteq> None)
   \<and> snd (len s) = length (snd (keys s))
   \<and> snd (keys s) = map fst (data s)
   \<and> snd (values_list s) = map snd (data s)
   \<and> snd (items s) = data s
   \<and> (key \<in> set (map fst (data s)) \<and> expired now s key \<longrightarrow> snd (contains s key))"
  by (simp add: contains_def len_def keys_def values_list_def items_def map_of_eq_None_iff)

theorem query_frame_witness:
  "1 \<in> set (map fst (data (run unswept_history (init 10))))
   \<and> expired 5 (run unswept_history (init 10)) 1
   \<and> snd (contains (run unswept_history (init 10)) 1)
   \<and> fst (contains (run unswept_history (init 10)) 1) = run unswept_history (init 10)
   \<and> snd (keys (run unswept_history (init 10))) = [1]"
proof -
  have h: "1 \<in> set (map fst (data (run unswept_history (init 10))))
           \<and> expired 5 (run unswept_history (init 10)) 1"
    by code_simp
  have k: "map fst (data (run unswept_history (init 10))) = [1]"
    by code_simp
  note t = query_frame[of "run unswept_history (init 10)" 1 5]
  from t h have c: "snd (contains (run unswept_history (init 10)) 1)
      \<and> fst (contains (run unswept_history (init 10)) 1) = run unswept_history (init 10)"
    by blast
  from t k have "snd (keys (run unswept_history (init 10))) = [1]"
    by metis
  with h c show ?thesis by blast
qed

subsection \<open>The argument of \<^verbatim>\<open>__setitem__\<close>\<close>

lemma tuple_not_component: "a \<noteq> Tuple [a, b]"
proof
  assume "a = Tuple [a, b]"
  then have "size a = size (Tuple [a, b])" by simp
  then show False by simp
qed

lemma store_value: "map_of (data (store K a d s)) K = Some a"
  by (simp add: store_def Let_def update_conv')

lemma store_pair: "(d, K) \<in> set (expiry_times (store K a d s))"
  by (simp add: store_def Let_def set_heappush)

lemma value_and_expiry_plain: "\<not> is_tuple v \<Longrightarrow> value_and_expiry now v = Inr (v, Never)"
  by (cases v) auto

lemma value_and_expiry_tuple:
  "value_and_expiry now (Tuple xs) = Inr (a, d) \<Longrightarrow> \<exists>b. xs = [a, b]"
  by (induction now "Tuple xs" rule: value_and_expiry.induct) auto

lemma store_only_pair:
  assumes "no_stale_pairs s"
  shows "((e, K) \<in> set (expiry_times (store K a d s))) = (e = d)"
  using no_stale_pairs_absent[OF assms, of K]
  by (auto simp: store_def Let_def set_heappush)

lemma setitem_effect:
  assumes "value_and_expiry now v = Inr (a, d)"
  shows "snd (setitem now (run h (init t)) K v) = Inr ()
         \<and> map_of (data (fst (setitem now (run h (init t)) K v))) K = Some a
         \<and> (\<forall>e. ((e, K) \<in> set (expiry_times (fst (setitem now (run h (init t)) K v)))) = (e = d))"
proof -
  have "no_stale_pairs (run h (init t))"
    by (simp add: no_stale_pairs_run no_stale_pairs_init)
  then show ?thesis
    using assms by (simp add: setitem_def store_value store_only_pair)
qed

lemma setitem_stored_value:
  assumes "snd (setitem now s K v) = Inr ()"
  obtains a d where "value_and_expiry now v = Inr (a, d)"
    and "map_of (data (fst (setitem now s K v))) K = Some a"
proof -
  from assms obtain a d where e: "value_and_expiry now v = Inr (a, d)"
    by (auto simp: setitem_def split: sum.splits)
  then have "map_of (data (fst (setitem now s K v))) K = Some a"
    by (simp add: setitem_def store_value)
  with e show ?thesis by (rule that)
qed

text \<open>
  C10 as stated fails in its last clause: a caller can store a tuple as the value of
  an entry that never expires, by passing the tuple wrapped in a tuple with
  \<^verbatim>\<open>None\<close>. On the empty dictionary the write of \<open>((1, 2), None)\<close> under
  the key 1 succeeds and leaves the tuple \<open>(1, 2)\<close> as the value, with the expiry
  time infinity.
\<close>

theorem tuple_stored_by_wrapping_example:
  "is_tuple (Tuple [Num 1, Num 2 :: string pyobj])
   \<and> snd (setitem 0 (init 1) (1::nat) (Tuple [Tuple [Num 1, Num 2 :: string pyobj], PNone])) = Inr ()
   \<and> fst (setitem 0 (init 1) (1::nat) (Tuple [Tuple [Num 1, Num 2 :: string pyobj], PNone]))
       = \<lparr>data = [(1, Tuple [Num 1, Num 2])], expiry_times = [(Never, 1)], daemon_sleep_time = 1\<rparr>"
  by code_simp

text \<open>
  C10, amended (positional TTL encoding). In every reachable state, when the argument
  of \<^verbatim>\<open>__setitem__\<close> is a tuple of two components \<open>a\<close> and \<open>b\<close>, the write
  succeeds, the value under the key is \<open>a\<close>, and the pairs of the key in
  \<^verbatim>\<open>expiry_times\<close> are exactly the one with the expiry time \<open>now + b\<close> for a
  number \<open>b\<close>, or infinity when \<open>b\<close> is \<^verbatim>\<open>None\<close>; an argument that is not a
  tuple is stored whole, with the expiry time infinity. Consequently a tuple passed as
  the argument is never itself the stored value, in any state; and whenever a
  successful write leaves a tuple \<open>T\<close> as the value, the argument was \<open>T\<close>
  wrapped in a tuple with \<^verbatim>\<open>None\<close> or with a number: a tuple is stored as the
  value of an entry that never expires only in the wrapped form with \<^verbatim>\<open>None\<close>.
\<close>

theorem positional_ttl_encoding:
  "(snd (setitem now (run h (init t)) K (Tuple [a, Num b])) = Inr ()
    \<and> map_of (data (fst (setitem now (run h (init t)) K (Tuple [a, Num b])))) K = Some a
    \<and> (\<forall>e. ((e, K) \<in> set (expiry_times (fst (setitem now (run h (init t)) K (Tuple [a, Num b])))))
            = (e = At (now + b))))
   \<and> (snd (setitem now (run h (init t)) K (Tuple [a, PNone])) = Inr ()
    \<and> map_of (data (fst (setitem now (run h (init t)) K (Tuple [a, PNone])))) K = Some a
    \<and> (\<forall>e. ((e, K) \<in> set (expiry_times (fst (setitem now (run h (init t)) K (Tuple [a, PNone])))))
            = (e = Never)))
   \<and> (\<not> is_tuple v \<longrightarrow>
        snd (setitem now (run h (init t)) K v) = Inr ()
        \<and> map_of (data (fst (setitem now (run h (init t)) K v))) K = Some v
        \<and> (\<forall>e. ((e, K) \<in> set (expiry_times (fst (setitem now (run h (init t)) K v)))) = (e = Never)))
   \<and> (is_tuple v \<and> snd (setitem now s K v) = Inr () \<longrightarrow>
        map_of (data (fst (setitem now s K v))) K \<noteq> Some v)
   \<and> (is_tuple T \<and> snd (setitem now s K v) = Inr ()
        \<and> map_of (data (fst (setitem now s K v))) K = Some T \<longrightarrow>
        v = Tuple [T, PNone] \<or> (\<exists>ttl. v = Tuple [T, Num ttl]))"
proof (intro conjI impI)
  have n: "value_and_expiry now (Tuple [a, Num b]) = Inr (a, At (now + b))" by simp
  from setitem_effect[OF n, of h t K]
  show "snd (setitem now (run h (init t)) K (Tuple [a, Num b])) = Inr ()"
    and "map_of (data (fst (setitem now (run h (init t)) K (Tuple [a, Num b])))) K = Some a"
    and "\<forall>e. ((e, K) \<in> set (expiry_times (fst (setitem now (run h (init t)) K (Tuple [a, Num b])))))
            = (e = At (now + b))"
    by blast+
  have p: "value_and_expiry now (Tuple [a, PNone]) = Inr (a, Never)" by simp
  from setitem_effect[OF p, of h t K]
  show "snd (setitem now (run h (init t)) K (Tuple [a, PNone])) = Inr ()"
    and "map_of (data (fst (setitem now (run h (init t)) K (Tuple [a, PNone])))) K = Some a"
    and "\<forall>e. ((e, K) \<in> set (expiry_times (fst (setitem now (run h (init t)) K (Tuple [a, PNone])))))
            = (e = Never)"
    by blast+
next
  assume "\<not> is_tuple v"
  then have "value_and_expiry now v = Inr (v, Never)" by (rule value_and_expiry_plain)
  from setitem_effect[OF this, of h t K]
  show "snd (setitem now (run h (init t)) K v) = Inr ()"
    and "map_of (data (fst (setitem now (run h (init t)) K v))) K = Some v"
    and "\<forall>e. ((e, K) \<in> set (expiry_times (fst (setitem now (run h (init t)) K v)))) = (e = Never)"
    by blast+
next
  assume that: "is_tuple v \<and> snd (setitem now s K v) = Inr ()"
  then obtain xs where v: "v = Tuple xs" by (cases v) auto
  from that obtain a' d' where e: "value_and_expiry now v = Inr (a', d')"
    and m: "map_of (data (fst (setitem now s K v))) K = Some a'"
    using setitem_stored_value by blast
  from e v obtain b' where "xs = [a', b']"
    using value_and_expiry_tuple by blast
  with v m show "map_of (data (fst (setitem now s K v))) K \<noteq> Some v"
    using tuple_not_component[of a' b'] by auto
next
  assume that: "is_tuple T \<and> snd (setitem now s K v) = Inr ()
        \<and> map_of (data (fst (setitem now s K v))) K = Some T"
  then obtain a' d' where e: "value_and_expiry now v = Inr (a', d')"
    and m: "map_of (data (fst (setitem now s K v))) K = Some a'"
    using setitem_stored_value by blast
  with that have aT: "a' = T" by simp
  have tv: "is_tuple v"
  proof (rule ccontr)
    assume "\<not> is_tuple v"
    then have "value_and_expiry now v = Inr (v, Never)" by (rule value_and_expiry_plain)
    with e aT have "v = T" by simp
    with that \<open>\<not> is_tuple v\<close> show False by simp
  qed
  then obtain xs where v: "v = Tuple xs" by (cases v) auto
  with e obtain b' where xs: "xs = [a', b']"
    using value_and_expiry_tuple by blast
  from e show "v = Tuple [T, PNone] \<or> (\<exists>ttl. v = Tuple [T, Num ttl])"
    unfolding v xs aT by (cases b') auto
qed

theorem positional_ttl_encoding_witness:
  "\<not> is_tuple (Obj ''x'')
   \<and> snd (setitem 0 (run [(0, SetItem (1::nat) (Obj ''old''))] (init 1)) 1 (Obj ''x'')) = Inr ()
   \<and> map_of (data (fst (setitem 0 (run [(0, SetItem (1::nat) (Obj ''old''))] (init 1)) 1 (Obj ''x'')))) 1
       = Some (Obj ''x'')
   \<and> is_tuple (Tuple [Obj ''x'', Num 3])
   \<and> snd (setitem 0 (init 1) (1::nat) (Tuple [Obj ''x'', Num 3])) = Inr ()
   \<and> map_of (data (fst (setitem 0 (init 1) (1::nat) (Tuple [Obj ''x'', Num 3])))) 1
       \<noteq> Some (Tuple [Obj ''x'', Num 3])
   \<and> is_tuple (Tuple [Num 1, Num 2 :: string pyobj])
   \<and> snd (setitem 0 (init 1) (1::nat) (Tuple [Tuple [Num 1, Num 2 :: string pyobj], PNone])) = Inr ()
   \<and> map_of (data (fst (setitem 0 (init 1) (1::nat) (Tuple [Tuple [Num 1, Num 2 :: string pyobj], PNone])))) 1
       = Some (Tuple [Num 1, Num 2])
   \<and> (Tuple [Tuple [Num 1, Num 2 :: string pyobj], PNone] = Tuple [Tuple [Num 1, Num 2], PNone]
       \<or> (\<exists>ttl. Tuple [Tuple [Num 1, Num 2 :: string pyobj], PNone] = Tuple [Tuple [Num 1, Num 2], Num ttl]))"
proof -
  have h1: "\<not> is_tuple (Obj ''x'')"
    by simp
  have h2: "is_tuple (Tuple [Obj ''x'', Num 3])
            \<and> snd (setitem 0 (init 1) (1::nat) (Tuple [Obj ''x'', Num 3])) = Inr ()"
    by (simp add: setitem_def)
  have h3: "is_tuple (Tuple [Num 1, Num 2 :: string pyobj])
   \<and> snd (setitem 0 (init 1) (1::nat) (Tuple [Tuple [Num 1, Num 2 :: string pyobj], PNone])) = Inr ()
   \<and> map_of (data (fst (setitem 0 (init 1) (1::nat) (Tuple [Tuple [Num 1, Num 2 :: string pyobj], PNone])))) 1
       = Some (Tuple [Num 1, Num 2])"
    by (simp add: setitem_def store_value)
  note t1 = positional_ttl_encoding[of 0 "[(0, SetItem (1::nat) (Obj ''old''))]" 1 1 "Obj ''x''" 3
      "Obj ''x''" "init 1" "Tuple [Num 1, Num 2]"]
  note t2 = positional_ttl_encoding[of 0 "[]" 1 "1::nat" "Obj ''x''" 3
      "Tuple [Obj ''x'', Num 3]" "init 1" "Tuple [Num 1, Num 2]"]
  note t3 = positional_ttl_encoding[of 0 "[]" 1 "1::nat" "Obj ''x''" 3
      "Tuple [Tuple [Num 1, Num 2], PNone]" "init 1" "Tuple [Num 1, Num 2]"]
  from t1 h1 have c1: "snd (setitem 0 (run [(0, SetItem (1::nat) (Obj ''old''))] (init 1)) 1 (Obj ''x'')) = Inr ()
   \<and> map_of (data (fst (setitem 0 (run [(0, SetItem (1::nat) (Obj ''old''))] (init 1)) 1 (Obj ''x'')))) 1
       = Some (Obj ''x'')"
    by blast
  from t2 h2 have c2: "map_of (data (fst (setitem 0 (init 1) (1::nat) (Tuple [Obj ''x'', Num 3])))) 1
       \<noteq> Some (Tuple [Obj ''x'', Num 3])"
    by blast
  from t3 h3 have c3: "Tuple [Tuple [Num 1, Num 2 :: string pyobj], PNone] = Tuple [Tuple [Num 1, Num 2], PNone]
       \<or> (\<exists>ttl. Tuple [Tuple [Num 1, Num 2 :: string pyobj], PNone] = Tuple [Tuple [Num 1, Num 2], Num ttl])"
    by blast
  from h1 h2 h3 c1 c2 c3 show ?thesis by blast
qed

end
